theory Spec2Isabelle
  imports Complex_Main "HOL-Library.Multiset" "HOL-Library.Word"
begin

section \<open>Data model (src/app/page.tsx, lines 6-15)\<close>

text \<open>
  A participant and an assignment, as the two TypeScript types declare them. The field
  \<open>id\<close> of the source is called \<open>id_p\<close> here, since \<open>id\<close> is the identity function of HOL.
\<close>

record Participant =
  id_p :: string
  name :: string
  email :: string

record Assignment =
  giver :: Participant
  recipient :: Participant

section \<open>The randomness source\<close>

text \<open>
  \<open>Math.random()\<close> is the only source of randomness of the assignment engine. A run of
  the engine is modelled against the sequence of values that the successive calls of
  \<open>Math.random()\<close> return: \<open>rnd k\<close> is the value of call number \<open>k\<close>, and every function
  that draws takes the number of the next call and returns the number after its last one.
  The values are taken as exact rationals. ECMAScript promises a value in \<open>[0, 1)\<close>; the
  predicate \<open>valid_rng\<close> states that contract, and the theorems below assume it, since
  outside of it \<open>a[j]\<close> in \<open>shuffle\<close> would read past the array. The source multiplies
  in double precision, where the product is rounded; the index it gets still lies between
  \<open>0\<close> and \<open>i\<close>, and every such index is the floor of the exact product for some value
  in \<open>[0, 1)\<close>, so a theorem about all valid sequences covers every index the source can
  draw.
\<close>

type_synonym rng = "nat \<Rightarrow> rat"

definition valid_rng :: "rng \<Rightarrow> bool" where
  "valid_rng rnd \<longleftrightarrow> (\<forall>k. 0 \<le> rnd k \<and> rnd k < 1)"

definition const_rng :: "rat \<Rightarrow> rng" where
  "const_rng r k = r"

section \<open>shuffle (lines 21-28)\<close>

text \<open>
  \<open>[a[i], a[j]] = [a[j], a[i]]\<close>: both reads happen before both writes.
\<close>

definition swap :: "'a list \<Rightarrow> nat \<Rightarrow> nat \<Rightarrow> 'a list" where
  "swap a i j = (a[i := a ! j])[j := a ! i]"

text \<open>
  \<open>Math.floor(Math.random() * (i + 1))\<close>, drawn from call number \<open>k\<close>.
\<close>

definition random_index :: "rng \<Rightarrow> nat \<Rightarrow> nat \<Rightarrow> nat" where
  "random_index rnd k i = nat \<lfloor>rnd k * of_nat (i + 1)\<rfloor>"

text \<open>
  The loop \<open>for (let i = a.length - 1; i > 0; i--)\<close>, entered with the loop variable at
  \<open>i\<close>: the first equation is the exit at \<open>i = 0\<close>, the second one round of the body.
\<close>

fun shuffle_loop :: "rng \<Rightarrow> nat \<Rightarrow> nat \<Rightarrow> 'a list \<Rightarrow> 'a list \<times> nat" where
  "shuffle_loop rnd k 0 a = (a, k)"
| "shuffle_loop rnd k (Suc m) a =
     (let i = Suc m;
          j = random_index rnd k i
      in shuffle_loop rnd (Suc k) m (swap a i j))"

text \<open>
  \<open>arr.slice()\<close> copies the array; a HOL list is a value, so the copy is the list itself.
  For the empty array \<open>a.length - 1\<close> is \<open>-1\<close> and the loop does not run; truncating
  subtraction on \<open>nat\<close> gives \<open>0\<close>, where it does not run either.
\<close>

definition shuffle :: "rng \<Rightarrow> nat \<Rightarrow> 'a list \<Rightarrow> 'a list \<times> nat" where
  "shuffle rnd k arr = shuffle_loop rnd k (length arr - 1) arr"

section \<open>assignSecretSantas (lines 30-51)\<close>

text \<open>
  The inner loop of lines 37-43, entered with the loop variable at \<open>i\<close>: the value of
  \<open>ok\<close> when the loop is left.
\<close>

function check_from :: "Participant list \<Rightarrow> Participant list \<Rightarrow> nat \<Rightarrow> nat \<Rightarrow> bool" where
  "check_from participants recipients n i =
     (if i < n then
        (if id_p (participants ! i) = id_p (recipients ! i) then False
         else check_from participants recipients n (Suc i))
      else True)"
  by pat_completeness auto
termination
  by (relation "measure (\<lambda>(participants, recipients, n, i). n - i)") auto

declare check_from.simps [simp del]

text \<open>
  \<open>participants.map((p, i) => ({ giver: p, recipient: recipients[i] }))\<close>.
\<close>

definition pair_up :: "Participant list \<Rightarrow> Participant list \<Rightarrow> Assignment list" where
  "pair_up participants recipients =
     map (\<lambda>i. \<lparr>giver = participants ! i, recipient = recipients ! i\<rparr>)
       [0..<length participants]"

text \<open>
  The fallback of line 50:
  \<open>participants.map((p, i) => ({ giver: p, recipient: participants[(i + 1) % n] }))\<close>.
\<close>

definition rotation :: "Participant list \<Rightarrow> Assignment list" where
  "rotation participants =
     (let n = length participants
      in map (\<lambda>i. \<lparr>giver = participants ! i, recipient = participants ! ((i + 1) mod n)\<rparr>)
           [0..<n])"

text \<open>
  The loop of lines 35-47, entered with the loop variable at \<open>attempt\<close> and the next
  \<open>Math.random()\<close> call numbered \<open>k\<close>: \<open>Some\<close> is the \<open>return\<close> of line 45, \<open>None\<close> is
  leaving the loop after the last attempt.
\<close>

function search :: "rng \<Rightarrow> nat \<Rightarrow> nat \<Rightarrow> Participant list \<Rightarrow> Assignment list option" where
  "search rnd k attempt participants =
     (if attempt < 1000 then
        (let (recipients, k') = shuffle rnd k participants;
             ok = check_from participants recipients (length participants) 0
         in if ok then Some (pair_up participants recipients)
            else search rnd k' (Suc attempt) participants)
      else None)"
  by pat_completeness auto
termination
  by (relation "measure (\<lambda>(rnd, k, attempt, participants). 1000 - attempt)") auto

declare search.simps [simp del]

definition assignSecretSantas :: "rng \<Rightarrow> Participant list \<Rightarrow> Assignment list" where
  "assignSecretSantas rnd participants =
     (let n = length participants
      in if n < 2 then []
         else (case search rnd 0 0 participants of
                 Some res \<Rightarrow> res
               | None \<Rightarrow> rotation participants))"

section \<open>Verification and token generation (lines 53-143)\<close>

text \<open>
  The verification result that \<open>setVerification\<close> receives (line 59 gives its type).
\<close>

record Verification =
  derangement :: bool
  bijection :: bool

text \<open>
  Lines 101-104. \<open>new Set(recipientIds).size\<close> is the number of distinct recipient ids.
\<close>

definition verify :: "Assignment list \<Rightarrow> Participant list \<Rightarrow> Verification" where
  "verify res parts =
     (let d = list_all (\<lambda>a. id_p (giver a) \<noteq> id_p (recipient a)) res;
          recipientIds = map (\<lambda>a. id_p (recipient a)) res;
          uniqueRecipients = set recipientIds;
          b = (card uniqueRecipients = length parts)
      in \<lparr>derangement = d, bijection = b\<rparr>)"

text \<open>
  The part of the component's React state that \<open>handleAssign\<close> and
  \<open>createEncryptedTokensAndVerify\<close> read and write (lines 56-60); \<open>null\<close> is \<open>None\<close>.
  The form fields and \<open>sendStatus\<close> are not touched by these two functions.
\<close>

record ui_state =
  participants :: "Participant list"
  assignments :: "Assignment list option"
  encryptedTokens :: "string list option"
  verification :: "Verification option"
  error :: "string option"

text \<open>
  The browser environment that the token code runs in. Web Crypto, \<open>TextEncoder\<close> and
  \<open>btoa\<close> belong to the platform, not to this repository, so they are parameters:
  \<^item> the three tests of line 108, each as a flag;
  \<^item> \<open>generateKey\<close>: the key that \<open>subtle.generateKey\<close> resolves to, \<open>None\<close> when it
    rejects;
  \<^item> \<open>random_bytes\<close>: the bytes that successive \<open>getRandomValues\<close> calls deliver, by
    position;
  \<^item> \<open>encrypt\<close>: \<open>subtle.encrypt\<close> with AES-GCM under a key, an iv and the data, \<open>None\<close>
    when it rejects;
  \<^item> \<open>encode\<close>: \<open>TextEncoder.encode\<close> (UTF-8); \<open>btoa\<close>: base64 of a binary string.
\<close>

type_synonym byte = "8 word"

record 'key crypto_env =
  window_defined :: bool
  has_crypto :: bool
  has_subtle :: bool
  generateKey :: "'key option"
  random_bytes :: "nat \<Rightarrow> byte"
  encrypt :: "'key \<Rightarrow> byte list \<Rightarrow> byte list \<Rightarrow> byte list option"
  encode :: "string \<Rightarrow> byte list"
  btoa :: "string \<Rightarrow> string"

text \<open>
  \<open>toBase64\<close> (lines 118-123): the loop appends \<open>String.fromCharCode(bytes[i])\<close> to
  \<open>binary\<close>, byte after byte, and \<open>btoa\<close> encodes the result.
\<close>

definition toBase64 :: "'key crypto_env \<Rightarrow> byte list \<Rightarrow> string" where
  "toBase64 env buf =
     (let binary = foldl (\<lambda>binary b. binary @ [char_of (unat b)]) [] buf
      in btoa env binary)"

text \<open>
  \<open>window.crypto.getRandomValues(new Uint8Array(len))\<close>, with \<open>pos\<close> random bytes
  delivered so far.
\<close>

definition getRandomValues :: "'key crypto_env \<Rightarrow> nat \<Rightarrow> nat \<Rightarrow> byte list" where
  "getRandomValues env pos len = map (random_bytes env) [pos..<pos + len]"

text \<open>
  The loop of lines 126-135 over the assignments still to be handled, with \<open>tokens\<close>
  collected so far. \<open>None\<close> is the exception of a rejected \<open>subtle.encrypt\<close>, which
  leaves the loop and the \<open>try\<close> block.
\<close>

fun token_loop ::
  "'key crypto_env \<Rightarrow> 'key \<Rightarrow> nat \<Rightarrow> Assignment list \<Rightarrow> string list \<Rightarrow> string list option"
where
  "token_loop env key pos [] tokens = Some tokens"
| "token_loop env key pos (a # rest) tokens =
     (let iv = getRandomValues env pos 12;
          data = encode env (id_p (recipient a))
      in case encrypt env key iv data of
           None \<Rightarrow> None
         | Some ct \<Rightarrow>
             (let combined = iv @ ct
              in token_loop env key (pos + 12) rest (tokens @ [toBase64 env combined])))"

definition token_failure :: string where
  "token_failure = ''Failed to create encrypted tokens.''"

text \<open>
  \<open>createEncryptedTokensAndVerify\<close> (lines 98-143), run to its end without other state
  updates in between: the state after it, from the state before it. The \<open>catch\<close> block
  is reached from a rejected \<open>generateKey\<close> or \<open>encrypt\<close>; it sets \<open>error\<close> only.
\<close>

definition createEncryptedTokensAndVerify ::
  "'key crypto_env \<Rightarrow> Assignment list \<Rightarrow> Participant list \<Rightarrow> ui_state \<Rightarrow> ui_state"
where
  "createEncryptedTokensAndVerify env res parts st =
     (let st1 = st\<lparr>verification := Some (verify res parts)\<rparr>
      in if \<not> window_defined env \<or> \<not> has_crypto env \<or> \<not> has_subtle env
         then st1\<lparr>encryptedTokens := None\<rparr>
         else (case generateKey env of
                 None \<Rightarrow> st1\<lparr>error := Some token_failure\<rparr>
               | Some key \<Rightarrow>
                   (case token_loop env key 0 res [] of
                      None \<Rightarrow> st1\<lparr>error := Some token_failure\<rparr>
                    | Some tokens \<Rightarrow> st1\<lparr>encryptedTokens := Some tokens\<rparr>)))"

text \<open>
  \<open>handleAssign\<close> (lines 84-96), with the token creation it starts run to its end.
\<close>

definition handleAssign :: "rng \<Rightarrow> 'key crypto_env \<Rightarrow> ui_state \<Rightarrow> ui_state" where
  "handleAssign rnd env st =
     (let st0 = st\<lparr>error := None\<rparr>
      in if length (participants st0) < 2
         then st0\<lparr>error := Some ''Add at least 2 participants to assign Santas.''\<rparr>
         else (let res = assignSecretSantas rnd (participants st0);
                   st1 = st0\<lparr>assignments := Some res, encryptedTokens := None,
                             verification := None\<rparr>
               in createEncryptedTokensAndVerify env res (participants st0) st1))"

section \<open>The send-emails route (src/app/api/send-emails/route.ts)\<close>

text \<open>
  The request body is whatever \<open>req.json()\<close> parses: any JSON value. A JavaScript value
  read from it is a JSON value or \<open>undefined\<close> (\<open>None\<close>).
\<close>

datatype json =
  JNull
| JBool bool
| JNum rat
| JStr string
| JArr "json list"
| JObj "(string \<times> json) list"

type_synonym js_value = "json option"

datatype js_error = SyntaxError | TypeError | FetchError

text \<open>
  Reading a property \<open>v.key\<close>, for the keys the route reads (\<open>assignments\<close>, \<open>giver\<close>,
  \<open>recipient\<close>, \<open>email\<close>, \<open>name\<close>; none is a built-in property of a string, number,
  boolean or array): reading from \<open>undefined\<close> or \<open>null\<close> throws a TypeError, an object
  gives the member (the last one of that name, as \<open>JSON.parse\<close> keeps it) or \<open>undefined\<close>,
  every other value gives \<open>undefined\<close>.
\<close>

fun get_prop :: "js_value \<Rightarrow> string \<Rightarrow> js_error + js_value" where
  "get_prop None key = Inl TypeError"
| "get_prop (Some JNull) key = Inl TypeError"
| "get_prop (Some (JObj members)) key = Inr (map_of (rev members) key)"
| "get_prop (Some v) key = Inr None"

fun truthy :: "js_value \<Rightarrow> bool" where
  "truthy None = False"
| "truthy (Some JNull) = False"
| "truthy (Some (JBool b)) = b"
| "truthy (Some (JNum r)) = (r \<noteq> 0)"
| "truthy (Some (JStr s)) = (s \<noteq> [])"
| "truthy (Some v) = True"

fun isArray :: "js_value \<Rightarrow> bool" where
  "isArray (Some (JArr xs)) = True"
| "isArray v = False"

fun elements :: "js_value \<Rightarrow> json list" where
  "elements (Some (JArr xs)) = xs"
| "elements v = []"

text \<open>
  \<open>process.env\<close>: a variable is a string or unset. \<open>!s\<close> holds of an unset variable
  and of the empty string; \<open>a || b\<close> is \<open>a\<close> unless \<open>!a\<close>.
\<close>

type_synonym process_env = "string \<Rightarrow> string option"

fun is_set :: "string option \<Rightarrow> bool" where
  "is_set None = False"
| "is_set (Some s) = (s \<noteq> [])"

definition or_else :: "string option \<Rightarrow> string option \<Rightarrow> string option" where
  "or_else a b = (if is_set a then a else b)"

text \<open>
  What \<open>fetch\<close> gives for one provider request: \<open>ok\<close> and \<open>status\<close> of the response, and
  the parsed body, \<open>None\<close> when \<open>res.json()\<close> throws (lines 91-96 then store \<open>null\<close>).
  The provider is a parameter: \<open>fetch_fn k\<close> is the outcome of request number \<open>k\<close>,
  \<open>None\<close> when \<open>fetch\<close> itself rejects.
\<close>

record fetch_response =
  ok :: bool
  status :: nat
  parsed_body :: "json option"

type_synonym provider = "nat \<Rightarrow> fetch_response option"

text \<open>
  One provider request, by what the route puts into it: the URL, the bearer key, and the
  four values read from the assignment, from which lines 53-80 build the recipient entry
  and the texts. The sender entry (lines 56-67) depends on the configuration only and is
  left out.
\<close>

record send_request =
  url :: string
  bearer :: string
  to_address :: js_value
  to_name :: js_value
  about_name :: js_value
  about_email :: js_value

record result_entry =
  to :: js_value
  entry_ok :: bool
  entry_status :: nat
  entry_body :: json

text \<open>
  A template string converts each value it embeds to a string. For a value parsed from
  JSON the conversion throws a TypeError in one case only: an object with a member named
  \<open>toString\<close> of its own, which is never a function and hides the inherited method, so
  that neither \<open>toString\<close> nor \<open>valueOf\<close> yields a primitive. An array is converted by
  joining the conversions of its elements, \<open>null\<close> giving the empty string, so it throws
  when one of its elements does. \<open>undefined\<close> and every other value convert.
\<close>

fun to_string_throws :: "json \<Rightarrow> bool" where
  "to_string_throws (JObj members) = (''toString'' \<in> fst ` set members)"
| "to_string_throws (JArr xs) = (\<exists>x \<in> set xs. to_string_throws x)"
| "to_string_throws v = False"

fun conversion_throws :: "js_value \<Rightarrow> bool" where
  "conversion_throws None = False"
| "conversion_throws (Some v) = to_string_throws v"

text \<open>
  What one round of the loop reads from the assignment before it calls \<open>fetch\<close>: the
  property reads in the order of lines 52-53, \<open>a.giver.email\<close>, \<open>a.recipient.email\<close>,
  \<open>a.giver.name\<close>, \<open>a.recipient.name\<close>, and the conversions of the template strings of
  lines 53, 75 and 78, which embed \<open>a.giver.name\<close>, \<open>a.recipient.name\<close> and
  \<open>a.recipient.email\<close>. The first step that throws ends the round; all throw a TypeError.
\<close>

definition read_assignment ::
  "json \<Rightarrow> js_error + (js_value \<times> js_value \<times> js_value \<times> js_value)" where
  "read_assignment a =
     (case get_prop (Some a) ''giver'' of Inl e \<Rightarrow> Inl e | Inr g \<Rightarrow>
      case get_prop g ''email'' of Inl e \<Rightarrow> Inl e | Inr g_email \<Rightarrow>
      case get_prop (Some a) ''recipient'' of Inl e \<Rightarrow> Inl e | Inr r \<Rightarrow>
      case get_prop r ''email'' of Inl e \<Rightarrow> Inl e | Inr r_email \<Rightarrow>
      case get_prop g ''name'' of Inl e \<Rightarrow> Inl e | Inr g_name \<Rightarrow>
      case get_prop r ''name'' of Inl e \<Rightarrow> Inl e | Inr r_name \<Rightarrow>
        if conversion_throws g_name \<or> conversion_throws r_name \<or> conversion_throws r_email
        then Inl TypeError
        else Inr (g_email, g_name, r_name, r_email))"

text \<open>
  The loop of lines 51-107 over the assignments still to be handled, with \<open>results\<close> and
  \<open>success\<close> so far and the provider requests made so far. The outcome is the exception
  that left the loop, or \<open>results\<close> and \<open>success\<close> at its end, together with all provider
  requests made.
\<close>

fun send_loop ::
  "string \<Rightarrow> string \<Rightarrow> provider \<Rightarrow> json list \<Rightarrow> result_entry list \<Rightarrow> nat \<Rightarrow>
   send_request list \<Rightarrow> (js_error + result_entry list \<times> nat) \<times> send_request list"
where
  "send_loop key api_url fetch_fn [] results success sent = (Inr (results, success), sent)"
| "send_loop key api_url fetch_fn (a # rest) results success sent =
     (case read_assignment a of
        Inl e \<Rightarrow> (Inl e, sent)
      | Inr (g_email, g_name, r_name, r_email) \<Rightarrow>
          (let request = \<lparr>url = api_url, bearer = key, to_address = g_email,
                          to_name = g_name, about_name = r_name, about_email = r_email\<rparr>
           in case fetch_fn (length sent) of
                None \<Rightarrow> (Inl FetchError, sent @ [request])
              | Some res \<Rightarrow>
                  (let parsed = (case parsed_body res of None \<Rightarrow> JNull | Some j \<Rightarrow> j);
                       entry = \<lparr>to = g_email, entry_ok = ok res,
                                entry_status = status res, entry_body = parsed\<rparr>
                   in send_loop key api_url fetch_fn rest (results @ [entry])
                        (if ok res then success + 1 else success) (sent @ [request]))))"

text \<open>
  The response of the handler: a status and a body, which is \<open>{ error: message }\<close> with a
  message of the route, \<open>{ error: err.message }\<close> for a caught exception, or the summary
  \<open>{ success, total, results }\<close>.
\<close>

datatype response_body =
  ErrorMessage string
| CaughtError js_error
| Summary nat nat "result_entry list"

record response =
  status_code :: nat
  body :: response_body

definition not_configured :: string where
  "not_configured =
     ''Maileroo not configured on server - set MAILEROO_API_KEY and MAILEROO_API_URL''"

text \<open>
  \<open>POST\<close> (lines 14-113): the response, and the provider requests made on the way.
  \<open>req_json\<close> is the value \<open>req.json()\<close> resolves to, \<open>None\<close> when the body is not JSON
  and it rejects. \<open>NextResponse.json\<close> without a status answers 200.
\<close>

definition POST :: "process_env \<Rightarrow> provider \<Rightarrow> json option \<Rightarrow> response \<times> send_request list" where
  "POST env fetch_fn req_json =
     (case req_json of
        None \<Rightarrow> (\<lparr>status_code = 500, body = CaughtError SyntaxError\<rparr>, [])
      | Some req_body \<Rightarrow>
          (case get_prop (Some req_body) ''assignments'' of
             Inl e \<Rightarrow> (\<lparr>status_code = 500, body = CaughtError e\<rparr>, [])
           | Inr assignments_v \<Rightarrow>
               if \<not> truthy assignments_v \<or> \<not> isArray assignments_v
                  \<or> length (elements assignments_v) = 0
               then (\<lparr>status_code = 400, body = ErrorMessage ''no assignments''\<rparr>, [])
               else
                 (let api_key = env ''MAILEROO_API_KEY'';
                      api_url = or_else (env ''MAILEROO_API_URL'') (env ''MAILEROO_URL'')
                  in if \<not> is_set api_key \<or> \<not> is_set api_url
                     then (\<lparr>status_code = 500, body = ErrorMessage not_configured\<rparr>, [])
                     else
                       (case send_loop (the api_key) (the api_url) fetch_fn
                               (elements assignments_v) [] 0 [] of
                          (Inl e, sent) \<Rightarrow> (\<lparr>status_code = 500, body = CaughtError e\<rparr>, sent)
                        | (Inr (results, success), sent) \<Rightarrow>
                            (\<lparr>status_code = 200,
                              body = Summary success (length (elements assignments_v)) results\<rparr>,
                             sent)))))"

section \<open>What the specification asks of the verification, the tokens and the route\<close>

text \<open>
  The two ground truths of the verification, in the specification's words: no assignment
  pairs a participant with a recipient of the same id; each participant occurs exactly
  once as a recipient.
\<close>

definition derangement_truth :: "Assignment list \<Rightarrow> bool" where
  "derangement_truth res \<longleftrightarrow> (\<forall>a \<in> set res. id_p (giver a) \<noteq> id_p (recipient a))"

definition bijection_truth :: "Assignment list \<Rightarrow> Participant list \<Rightarrow> bool" where
  "bijection_truth res parts \<longleftrightarrow>
     (\<forall>p \<in> set parts. count_list (map (\<lambda>a. id_p (recipient a)) res) (id_p p) = 1)"

text \<open>
  The nonce of the assignment at index \<open>i\<close> is the \<open>i\<close>-th block of twelve random bytes,
  and its ciphertext is what \<open>subtle.encrypt\<close> gives for that nonce and the encoded
  recipient id, \<open>None\<close> when it rejects.
\<close>

definition nonce_at :: "'key crypto_env \<Rightarrow> nat \<Rightarrow> byte list" where
  "nonce_at env i = getRandomValues env (12 * i) 12"

definition ciphertext_at ::
  "'key crypto_env \<Rightarrow> 'key \<Rightarrow> Assignment list \<Rightarrow> nat \<Rightarrow> byte list option" where
  "ciphertext_at env key res i =
     encrypt env key (nonce_at env i) (encode env (id_p (recipient (res ! i))))"

text \<open>
  The member \<open>assignments\<close> of a request body, when the body is an object that has one;
  and the bodies that the route is to turn away: no such member, a member that is not an
  array, or an empty array.
\<close>

fun assignments_field :: "json \<Rightarrow> json option" where
  "assignments_field (JObj members) = map_of (rev members) ''assignments''"
| "assignments_field b = None"

fun rejected_body :: "json \<Rightarrow> bool" where
  "rejected_body b =
     (case assignments_field b of
        None \<Rightarrow> True
      | Some (JArr xs) \<Rightarrow> xs = []
      | Some v \<Rightarrow> True)"

section \<open>Concrete inputs\<close>

text \<open>
  Three participants with different ids, two more that share one id, and two fixed
  randomness sources, for the examples that follow the theorems.
\<close>

definition alice :: Participant where
  "alice = \<lparr>id_p = ''a1'', name = ''Alice'', email = ''alice@example.com''\<rparr>"

definition bob :: Participant where
  "bob = \<lparr>id_p = ''b2'', name = ''Bob'', email = ''bob@example.com''\<rparr>"

definition carol :: Participant where
  "carol = \<lparr>id_p = ''c3'', name = ''Carol'', email = ''carol@example.com''\<rparr>"

definition twin_one :: Participant where
  "twin_one = \<lparr>id_p = ''t0'', name = ''Tim'', email = ''tim@example.com''\<rparr>"

definition twin_two :: Participant where
  "twin_two = \<lparr>id_p = ''t0'', name = ''Tom'', email = ''tom@example.com''\<rparr>"

definition rng_zero :: rng where
  "rng_zero = const_rng 0"

definition rng_half :: rng where
  "rng_half = const_rng (1 / 2)"

text \<open>
  A stand-in browser for the examples: key generation succeeds, the random bytes count
  upwards, encryption reverses the data, the encoder takes the character codes and
  \<open>btoa\<close> leaves the string alone. Two variants: one without \<open>crypto.subtle\<close>, and one
  whose encryption rejects every nonce that does not start with a zero byte, that is,
  every item but the first.
\<close>

definition demo_env :: "nat crypto_env" where
  "demo_env =
     \<lparr>window_defined = True, has_crypto = True, has_subtle = True,
      generateKey = Some 7,
      random_bytes = (\<lambda>k. of_nat k),
      encrypt = (\<lambda>key iv data. Some (rev data)),
      encode = map (\<lambda>c. of_nat (of_char c)),
      btoa = (\<lambda>s. s)\<rparr>"

definition no_subtle_env :: "nat crypto_env" where
  "no_subtle_env = demo_env\<lparr>has_subtle := False\<rparr>"

definition second_fails_env :: "nat crypto_env" where
  "second_fails_env =
     demo_env\<lparr>encrypt := (\<lambda>key iv data. if take 1 iv = [0] then Some (rev data) else None)\<rparr>"

definition start_state :: ui_state where
  "start_state =
     \<lparr>participants = [alice, bob], assignments = None, encryptedTokens = None,
      verification = None, error = None\<rparr>"

text \<open>
  A configured server and a provider that accepts every request, for the route.
\<close>

definition demo_config :: process_env where
  "demo_config v =
     (if v = ''MAILEROO_API_KEY'' then Some ''key''
      else if v = ''MAILEROO_API_URL'' then Some ''https://provider.example/send''
      else None)"

definition demo_provider :: provider where
  "demo_provider k = Some \<lparr>ok = True, status = 200, parsed_body = Some JNull\<rparr>"

text \<open>
  A request body with one well-formed assignment.
\<close>

definition demo_body :: json where
  "demo_body =
     JObj [(''assignments'',
            JArr [JObj [(''giver'', JObj [(''id'', JStr ''a1''), (''name'', JStr ''Alice''),
                                        (''email'', JStr ''alice@example.com'')]),
                        (''recipient'', JObj [(''id'', JStr ''b2''), (''name'', JStr ''Bob''),
                                            (''email'', JStr ''bob@example.com'')])]])]"

section \<open>Properties of shuffle and of the search loop\<close>

lemma random_index_le: "valid_rng rnd \<Longrightarrow> random_index rnd k i \<le> i"
proof -
  assume v: "valid_rng rnd"
  then have a: "0 \<le> rnd k" and b: "rnd k < 1" by (auto simp: valid_rng_def)
  have "rnd k * of_nat (i + 1) < of_nat (i + 1)"
    using b by (simp add: mult_less_cancel_right1)
  hence "\<lfloor>rnd k * of_nat (i + 1)\<rfloor> < int (i + 1)"
    by (simp add: floor_less_iff)
  thus ?thesis unfolding random_index_def by linarith
qed

lemma length_swap [simp]: "length (swap a i j) = length a"
  by (simp add: swap_def)

lemma mset_swap_list: "i < length a \<Longrightarrow> j < length a \<Longrightarrow> mset (swap a i j) = mset a"
  unfolding swap_def by (simp add: mset_swap)

lemma length_shuffle_loop [simp]: "length (fst (shuffle_loop rnd k m a)) = length a"
  by (induction m arbitrary: k a) (simp_all add: Let_def)

lemma mset_shuffle_loop:
  "valid_rng rnd \<Longrightarrow> m < length a \<Longrightarrow> mset (fst (shuffle_loop rnd k m a)) = mset a"
proof (induction m arbitrary: k a)
  case 0
  then show ?case by simp
next
  case (Suc m)
  have "random_index rnd k (Suc m) \<le> Suc m" using Suc.prems(1) by (rule random_index_le)
  with Suc.prems(2) have "mset (swap a (Suc m) (random_index rnd k (Suc m))) = mset a"
    by (intro mset_swap_list) auto
  with Suc show ?case by (simp add: Let_def)
qed

lemma snd_shuffle_loop [simp]: "snd (shuffle_loop rnd k m a) = k + m"
  by (induction m arbitrary: k a) (simp_all add: Let_def)

lemma length_shuffle [simp]: "length (fst (shuffle rnd k a)) = length a"
  by (simp add: shuffle_def)

lemma snd_shuffle [simp]: "snd (shuffle rnd k a) = k + (length a - 1)"
  by (simp add: shuffle_def)

lemma mset_shuffle: "valid_rng rnd \<Longrightarrow> mset (fst (shuffle rnd k a)) = mset a"
  by (cases "a = []") (simp_all add: shuffle_def mset_shuffle_loop)

lemma check_from_iff:
  "check_from ps rs n i \<longleftrightarrow> (\<forall>k. i \<le> k \<and> k < n \<longrightarrow> id_p (ps ! k) \<noteq> id_p (rs ! k))"
proof (induction ps rs n i rule: check_from.induct)
  case (1 ps rs n i)
  show ?case
  proof (cases "i < n")
    case False
    then show ?thesis by (subst check_from.simps) auto
  next
    case True
    show ?thesis
    proof (cases "id_p (ps ! i) = id_p (rs ! i)")
      case True
      with \<open>i < n\<close> show ?thesis by (subst check_from.simps) auto
    next
      case False
      have "check_from ps rs n i = check_from ps rs n (Suc i)"
        using False \<open>i < n\<close> by (subst check_from.simps) simp
      also have "\<dots> \<longleftrightarrow> (\<forall>k. Suc i \<le> k \<and> k < n \<longrightarrow> id_p (ps ! k) \<noteq> id_p (rs ! k))"
        using 1 \<open>i < n\<close> False by simp
      also have "\<dots> \<longleftrightarrow> (\<forall>k. i \<le> k \<and> k < n \<longrightarrow> id_p (ps ! k) \<noteq> id_p (rs ! k))"
        using False by (metis Suc_leI Suc_le_lessD le_neq_implies_less less_imp_le_nat)
      finally show ?thesis .
    qed
  qed
qed


lemma search_Some:
  assumes "valid_rng rnd" "search rnd k t ps = Some res"
  shows "\<exists>rs. res = pair_up ps rs \<and> length rs = length ps \<and> mset rs = mset ps
          \<and> check_from ps rs (length ps) 0"
  using assms
proof (induction rnd k t ps rule: search.induct)
  case (1 rnd k attempt ps)
  show ?case
  proof (cases "attempt < 1000")
    case False
    with "1.prems" show ?thesis by (subst (asm) search.simps) simp
  next
    case True
    obtain rs k' where sh: "shuffle rnd k ps = (rs, k')" by (cases "shuffle rnd k ps")
    have rs: "rs = fst (shuffle rnd k ps)" using sh by simp
    show ?thesis
    proof (cases "check_from ps rs (length ps) 0")
      case ok: True
      have "search rnd k attempt ps = Some (pair_up ps rs)"
        using True sh ok by (subst search.simps) simp
      with "1.prems" have "res = pair_up ps rs" by simp
      moreover have "length rs = length ps" by (simp add: rs)
      moreover have "mset rs = mset ps" using "1.prems"(1) by (simp add: rs mset_shuffle)
      ultimately show ?thesis using ok by blast
    next
      case nok: False
      have "search rnd k attempt ps = search rnd k' (Suc attempt) ps"
        using True sh nok by (subst search.simps) simp
      with "1.prems" have "search rnd k' (Suc attempt) ps = Some res" by simp
      with "1.IH"[OF True sh[symmetric] refl refl nok] "1.prems"(1) show ?thesis
        by blast
    qed
  qed
qed

lemma shift_pos:
  fixes k m t u :: nat
  assumes "Suc t \<le> u" "k' = k + m"
  shows "k' + (u - Suc t) * m = k + (u - t) * m"
proof -
  from assms(1) obtain d where "u = Suc t + d" by (auto simp: le_iff_add)
  with assms(2) show ?thesis by simp
qed

lemma search_None_iff:
  "search rnd k t ps = None \<longleftrightarrow>
     (\<forall>u. t \<le> u \<and> u < 1000 \<longrightarrow>
        \<not> check_from ps (fst (shuffle rnd (k + (u - t) * (length ps - 1)) ps)) (length ps) 0)"
proof (induction rnd k t ps rule: search.induct)
  case (1 rnd k attempt ps)
  show ?case
  proof (cases "attempt < 1000")
    case False
    then show ?thesis by (subst search.simps) auto
  next
    case True
    obtain rs k' where sh: "shuffle rnd k ps = (rs, k')" by (cases "shuffle rnd k ps")
    have rs: "rs = fst (shuffle rnd k ps)" and k': "k' = k + (length ps - 1)"
      using sh snd_shuffle[of rnd k ps] by simp_all
    show ?thesis
    proof (cases "check_from ps rs (length ps) 0")
      case ok: True
      have "search rnd k attempt ps = Some (pair_up ps rs)"
        using True sh ok by (subst search.simps) simp
      moreover have "\<not> (\<forall>u. attempt \<le> u \<and> u < 1000 \<longrightarrow>
        \<not> check_from ps (fst (shuffle rnd (k + (u - attempt) * (length ps - 1)) ps)) (length ps) 0)"
        using ok True rs by (auto intro!: exI[of _ attempt])
      ultimately show ?thesis by simp
    next
      case nok: False
      have "search rnd k attempt ps = search rnd k' (Suc attempt) ps"
        using True sh nok by (subst search.simps) simp
      also have "\<dots> = None \<longleftrightarrow> (\<forall>u. Suc attempt \<le> u \<and> u < 1000 \<longrightarrow>
        \<not> check_from ps (fst (shuffle rnd (k' + (u - Suc attempt) * (length ps - 1)) ps)) (length ps) 0)"
        using "1.IH"[OF True sh[symmetric] refl refl nok] .
      also have "\<dots> \<longleftrightarrow> (\<forall>u. attempt \<le> u \<and> u < 1000 \<longrightarrow>
        \<not> check_from ps (fst (shuffle rnd (k + (u - attempt) * (length ps - 1)) ps)) (length ps) 0)"
        (is "?L \<longleftrightarrow> ?R")
      proof
        assume L: ?L
        show ?R
        proof (intro allI impI)
          fix u assume u: "attempt \<le> u \<and> u < 1000"
          show "\<not> check_from ps (fst (shuffle rnd (k + (u - attempt) * (length ps - 1)) ps)) (length ps) 0"
          proof (cases "u = attempt")
            case True
            then show ?thesis using nok rs by simp
          next
            case False
            with u have su: "Suc attempt \<le> u \<and> u < 1000" by simp
            have e: "k' + (u - Suc attempt) * (length ps - 1) = k + (u - attempt) * (length ps - 1)"
              using su k' by (rule_tac shift_pos) simp_all
            from L su have "\<not> check_from ps (fst (shuffle rnd (k' + (u - Suc attempt) * (length ps - 1)) ps)) (length ps) 0"
              by blast
            then show ?thesis unfolding e .
          qed
        qed
      next
        assume R: ?R
        show ?L
        proof (intro allI impI)
          fix u assume su: "Suc attempt \<le> u \<and> u < 1000"
          have e: "k' + (u - Suc attempt) * (length ps - 1) = k + (u - attempt) * (length ps - 1)"
            using su k' by (rule_tac shift_pos) simp_all
          have "attempt \<le> u \<and> u < 1000" using su by simp
          with R have "\<not> check_from ps (fst (shuffle rnd (k + (u - attempt) * (length ps - 1)) ps)) (length ps) 0"
            by blast
          then show "\<not> check_from ps (fst (shuffle rnd (k' + (u - Suc attempt) * (length ps - 1)) ps)) (length ps) 0"
            unfolding e .
        qed
      qed
      finally show ?thesis .
    qed
  qed
qed

section \<open>Properties of the pairing and of the fallback\<close>

lemma valid_rng_zero: "valid_rng rng_zero"
  by (simp add: valid_rng_def rng_zero_def const_rng_def)

lemma valid_rng_half: "valid_rng rng_half"
  by (simp add: valid_rng_def rng_half_def const_rng_def)

lemma length_pair_up [simp]: "length (pair_up ps rs) = length ps"
  by (simp add: pair_up_def)

lemma nth_pair_up:
  "i < length ps \<Longrightarrow> pair_up ps rs ! i = \<lparr>giver = ps ! i, recipient = rs ! i\<rparr>"
  by (simp add: pair_up_def)

lemma map_giver_pair_up: "map giver (pair_up ps rs) = ps"
  by (rule nth_equalityI) (simp_all add: nth_pair_up)

lemma map_recipient_pair_up:
  "length rs = length ps \<Longrightarrow> map recipient (pair_up ps rs) = rs"
  by (rule nth_equalityI) (simp_all add: nth_pair_up)

lemma rotation_pair_up: "rotation ps = pair_up ps (rotate1 ps)"
proof (rule nth_equalityI)
  show "length (rotation ps) = length (pair_up ps (rotate1 ps))"
    by (simp add: rotation_def Let_def)
next
  fix i assume "i < length (rotation ps)"
  then have i: "i < length ps" by (simp add: rotation_def Let_def)
  then show "rotation ps ! i = pair_up ps (rotate1 ps) ! i"
    by (simp add: rotation_def Let_def nth_pair_up nth_rotate1)
qed

lemma assign_small: "length ps < 2 \<Longrightarrow> assignSecretSantas rnd ps = []"
  by (simp add: assignSecretSantas_def)

lemma assign_cases:
  assumes "valid_rng rnd" "2 \<le> length ps"
  shows "\<exists>rs. assignSecretSantas rnd ps = pair_up ps rs \<and> length rs = length ps
           \<and> mset rs = mset ps
           \<and> (check_from ps rs (length ps) 0 \<or> rs = rotate1 ps)"
proof (cases "search rnd 0 0 ps")
  case None
  with assms(2) have "assignSecretSantas rnd ps = pair_up ps (rotate1 ps)"
    by (simp add: assignSecretSantas_def rotation_pair_up)
  moreover have "mset (rotate1 ps) = mset ps" by (cases ps) simp_all
  ultimately show ?thesis by (intro exI[of _ "rotate1 ps"]) simp
next
  case (Some res)
  with assms(2) have "assignSecretSantas rnd ps = res"
    by (simp add: assignSecretSantas_def)
  with search_Some[OF assms(1) Some] show ?thesis by auto
qed

lemma rotate1_ids_differ:
  assumes "distinct (map id_p ps)" "2 \<le> length ps" "i < length ps"
  shows "id_p (ps ! i) \<noteq> id_p (rotate1 ps ! i)"
proof -
  let ?j = "Suc i mod length ps"
  have "0 < length ps" using assms(2) by linarith
  then have j: "?j < length ps" by (rule mod_less_divisor)
  have "?j \<noteq> i"
  proof (cases "Suc i < length ps")
    case True then show ?thesis by simp
  next
    case False
    with assms(3) have "Suc i = length ps" by simp
    then have "?j = 0" by simp
    moreover have "i \<noteq> 0" using \<open>Suc i = length ps\<close> assms(2) by simp
    ultimately show ?thesis by simp
  qed
  then have "map id_p ps ! i \<noteq> map id_p ps ! ?j"
    using assms(1,3) j by (simp add: nth_eq_iff_index_eq del: nth_map)
  then show ?thesis using assms(3) j by (simp add: nth_rotate1)
qed

lemma pair_up_deranged:
  assumes "length rs = length ps"
    and "\<forall>i<length ps. id_p (ps ! i) \<noteq> id_p (rs ! i)"
  shows "\<forall>a \<in> set (pair_up ps rs). id_p (giver a) \<noteq> id_p (recipient a)"
proof
  fix a assume "a \<in> set (pair_up ps rs)"
  then obtain i where "i < length ps" "a = pair_up ps rs ! i"
    by (auto simp: in_set_conv_nth)
  then show "id_p (giver a) \<noteq> id_p (recipient a)"
    using assms(2) by (simp add: nth_pair_up)
qed

section \<open>The assignment engine\<close>

text \<open>
  Claim C1. For every list of at least two participants with pairwise different ids, and
  whatever values \<open>Math.random()\<close> returns, no assignment returned by
  \<open>assignSecretSantas\<close> has a giver and a recipient with the same id.
\<close>

theorem assign_derangement:
  assumes "valid_rng rnd" and "distinct (map id_p ps)" and "2 \<le> length ps"
  shows "\<forall>a \<in> set (assignSecretSantas rnd ps). id_p (giver a) \<noteq> id_p (recipient a)"
proof -
  obtain rs where res: "assignSecretSantas rnd ps = pair_up ps rs"
    and len: "length rs = length ps"
    and alt: "check_from ps rs (length ps) 0 \<or> rs = rotate1 ps"
    using assign_cases[OF assms(1,3)] by blast
  have "\<forall>i<length ps. id_p (ps ! i) \<noteq> id_p (rs ! i)"
    using alt
  proof
    assume "check_from ps rs (length ps) 0"
    then show ?thesis by (simp add: check_from_iff)
  next
    assume "rs = rotate1 ps"
    then show ?thesis using rotate1_ids_differ[OF assms(2,3)] by simp
  qed
  with len show ?thesis unfolding res by (rule pair_up_deranged)
qed

theorem assign_derangement_witness:
  "valid_rng rng_zero \<and> distinct (map id_p [alice, bob, carol])
   \<and> 2 \<le> length [alice, bob, carol]
   \<and> list_all (\<lambda>a. id_p (giver a) \<noteq> id_p (recipient a))
         (assignSecretSantas rng_zero [alice, bob, carol])"
proof -
  have v: "valid_rng rng_zero"
    by (simp add: valid_rng_def rng_zero_def const_rng_def)
  have d: "distinct (map id_p [alice, bob, carol])"
    by (simp add: alice_def bob_def carol_def)
  have l: "2 \<le> length [alice, bob, carol]" by simp
  show ?thesis using v d l assign_derangement[OF v d l] by (simp add: list_all_iff)
qed

text \<open>
  Helper facts for the recipients: a rearrangement of a list with pairwise different ids
  carries every id exactly once.
\<close>

lemma distinct_count_list_one:
  "distinct xs \<Longrightarrow> x \<in> set xs \<Longrightarrow> count_list xs x = 1"
  by (induction xs) auto

lemma ids_bijection:
  assumes "mset rs = mset ps" and "distinct (map id_p ps)"
  shows "mset (map id_p rs) = mset (map id_p ps)"
    and "distinct (map id_p rs)"
    and "\<forall>p \<in> set ps. count_list (map id_p rs) (id_p p) = 1"
proof -
  show m: "mset (map id_p rs) = mset (map id_p ps)"
    using assms(1) by (metis mset_map)
  show d: "distinct (map id_p rs)"
    using m assms(2) by (metis mset_eq_imp_distinct_iff)
  show "\<forall>p \<in> set ps. count_list (map id_p rs) (id_p p) = 1"
  proof
    fix p assume "p \<in> set ps"
    then have "p \<in> set rs" using assms(1) by (metis mset_eq_setD)
    then have "id_p p \<in> set (map id_p rs)" by simp
    with d show "count_list (map id_p rs) (id_p p) = 1"
      by (rule distinct_count_list_one)
  qed
qed

text \<open>
  Claim C2. For every list of at least two participants with pairwise different ids, the
  recipient ids of the returned assignments are a rearrangement of the participant ids:
  no id occurs twice, and the id of every participant occurs exactly once.
\<close>

theorem assign_bijection:
  assumes "valid_rng rnd" and "distinct (map id_p ps)" and "2 \<le> length ps"
  shows "mset (map (\<lambda>a. id_p (recipient a)) (assignSecretSantas rnd ps)) = mset (map id_p ps)
         \<and> distinct (map (\<lambda>a. id_p (recipient a)) (assignSecretSantas rnd ps))
         \<and> (\<forall>p \<in> set ps.
               count_list (map (\<lambda>a. id_p (recipient a)) (assignSecretSantas rnd ps)) (id_p p) = 1)"
proof -
  obtain rs where res: "assignSecretSantas rnd ps = pair_up ps rs"
    and len: "length rs = length ps" and ms: "mset rs = mset ps"
    using assign_cases[OF assms(1,3)] by blast
  have "map (\<lambda>a. id_p (recipient a)) (assignSecretSantas rnd ps)
          = map id_p (map recipient (pair_up ps rs))"
    by (simp add: res)
  also have "\<dots> = map id_p rs" using len by (simp only: map_recipient_pair_up)
  finally have e: "map (\<lambda>a. id_p (recipient a)) (assignSecretSantas rnd ps) = map id_p rs" .
  show ?thesis unfolding e using ids_bijection[OF ms assms(2)] by blast
qed

theorem assign_bijection_witness:
  "valid_rng rng_zero \<and> distinct (map id_p [alice, bob, carol])
   \<and> 2 \<le> length [alice, bob, carol]
   \<and> mset (map (\<lambda>a. id_p (recipient a)) (assignSecretSantas rng_zero [alice, bob, carol]))
         = mset (map id_p [alice, bob, carol])
   \<and> count_list (map (\<lambda>a. id_p (recipient a)) (assignSecretSantas rng_zero [alice, bob, carol]))
         (id_p bob) = 1"
proof -
  have v: "valid_rng rng_zero" by (rule valid_rng_zero)
  have d: "distinct (map id_p [alice, bob, carol])"
    by (simp add: alice_def bob_def carol_def)
  have l: "2 \<le> length [alice, bob, carol]" by simp
  show ?thesis using v d l assign_bijection[OF v d l] by simp
qed

text \<open>
  Two fixed randomness sources on a list of two: the value \<open>1/2\<close> makes \<open>j = 1 = i\<close>,
  so the shuffle leaves the list as it is; the value \<open>0\<close> makes \<open>j = 0\<close>, so it swaps
  the two. A check that collides at index 0 fails.
\<close>

lemma shuffle_half_pair: "shuffle rng_half k [p, q] = ([p, q], Suc k)"
  by (simp add: shuffle_def rng_half_def const_rng_def random_index_def swap_def Let_def)

lemma shuffle_zero_pair: "shuffle rng_zero k [p, q] = ([q, p], Suc k)"
  by (simp add: shuffle_def rng_zero_def const_rng_def random_index_def swap_def Let_def)

lemma check_from_start_collides:
  "0 < n \<Longrightarrow> id_p (ps ! 0) = id_p (rs ! 0) \<Longrightarrow> \<not> check_from ps rs n 0"
  by (subst check_from.simps) simp

text \<open>
  Claim C3. For at least two participants: when each of the 1000 attempts fails the check
  (attempt number \<open>t\<close> shuffles with the \<open>Math.random()\<close> calls from number
  \<open>t * (n - 1)\<close> on), \<open>assignSecretSantas\<close> returns the rotation that gives the
  participant at index \<open>i\<close> the participant at index \<open>(i + 1) mod n\<close>, whether the ids are
  pairwise different or not; and whenever the ids are pairwise different, that rotation
  has no assignment with equal giver and recipient id, and its recipient ids are a
  rearrangement without repetition of the participant ids, each occurring exactly once.
\<close>

theorem fallback_rotation:
  assumes "2 \<le> length ps"
  shows "((\<forall>t<1000. \<not> check_from ps (fst (shuffle rnd (t * (length ps - 1)) ps)) (length ps) 0)
            \<longrightarrow> assignSecretSantas rnd ps
                  = map (\<lambda>i. \<lparr>giver = ps ! i, recipient = ps ! ((i + 1) mod length ps)\<rparr>)
                      [0..<length ps])
         \<and> rotation ps
             = map (\<lambda>i. \<lparr>giver = ps ! i, recipient = ps ! ((i + 1) mod length ps)\<rparr>)
                 [0..<length ps]
         \<and> (distinct (map id_p ps) \<longrightarrow>
               (\<forall>a \<in> set (rotation ps). id_p (giver a) \<noteq> id_p (recipient a))
               \<and> mset (map (\<lambda>a. id_p (recipient a)) (rotation ps)) = mset (map id_p ps)
               \<and> distinct (map (\<lambda>a. id_p (recipient a)) (rotation ps))
               \<and> (\<forall>p \<in> set ps.
                     count_list (map (\<lambda>a. id_p (recipient a)) (rotation ps)) (id_p p) = 1))"
proof (intro conjI impI)
  show rot: "rotation ps
             = map (\<lambda>i. \<lparr>giver = ps ! i, recipient = ps ! ((i + 1) mod length ps)\<rparr>)
                 [0..<length ps]"
    by (simp add: rotation_def Let_def)
  assume "\<forall>t<1000. \<not> check_from ps (fst (shuffle rnd (t * (length ps - 1)) ps)) (length ps) 0"
  then have "search rnd 0 0 ps = None"
    by (simp add: search_None_iff)
  with assms have "assignSecretSantas rnd ps = rotation ps"
    by (simp add: assignSecretSantas_def)
  then show "assignSecretSantas rnd ps
                  = map (\<lambda>i. \<lparr>giver = ps ! i, recipient = ps ! ((i + 1) mod length ps)\<rparr>)
                      [0..<length ps]"
    using rot by simp
next
  assume d: "distinct (map id_p ps)"
  have len: "length (rotate1 ps) = length ps" by simp
  have ms: "mset (rotate1 ps) = mset ps" by (cases ps) simp_all
  have "\<forall>i<length ps. id_p (ps ! i) \<noteq> id_p (rotate1 ps ! i)"
    using rotate1_ids_differ[OF d assms] by simp
  with len show "\<forall>a \<in> set (rotation ps). id_p (giver a) \<noteq> id_p (recipient a)"
    unfolding rotation_pair_up by (rule pair_up_deranged)
  have "map (\<lambda>a. id_p (recipient a)) (rotation ps)
          = map id_p (map recipient (pair_up ps (rotate1 ps)))"
    by (simp add: rotation_pair_up)
  also have "\<dots> = map id_p (rotate1 ps)" using len by (simp only: map_recipient_pair_up)
  finally have e: "map (\<lambda>a. id_p (recipient a)) (rotation ps) = map id_p (rotate1 ps)" .
  show "mset (map (\<lambda>a. id_p (recipient a)) (rotation ps)) = mset (map id_p ps)"
    unfolding e by (rule ids_bijection(1)[OF ms d])
  show "distinct (map (\<lambda>a. id_p (recipient a)) (rotation ps))"
    unfolding e by (rule ids_bijection(2)[OF ms d])
  show "\<forall>p \<in> set ps. count_list (map (\<lambda>a. id_p (recipient a)) (rotation ps)) (id_p p) = 1"
    unfolding e by (rule ids_bijection(3)[OF ms d])
qed

theorem fallback_rotation_witness:
  "2 \<le> length [alice, bob]
   \<and> \<not> (\<exists>t<1000. check_from [alice, bob]
          (fst (shuffle rng_half (t * (length [alice, bob] - 1)) [alice, bob]))
          (length [alice, bob]) 0)
   \<and> assignSecretSantas rng_half [alice, bob]
       = [\<lparr>giver = alice, recipient = bob\<rparr>, \<lparr>giver = bob, recipient = alice\<rparr>]
   \<and> rotation [alice, bob]
       = [\<lparr>giver = alice, recipient = bob\<rparr>, \<lparr>giver = bob, recipient = alice\<rparr>]
   \<and> distinct (map id_p [alice, bob])
   \<and> list_all (\<lambda>a. id_p (giver a) \<noteq> id_p (recipient a)) (rotation [alice, bob])
   \<and> mset (map (\<lambda>a. id_p (recipient a)) (rotation [alice, bob])) = mset (map id_p [alice, bob])
   \<and> count_list (map (\<lambda>a. id_p (recipient a)) (rotation [alice, bob])) (id_p alice) = 1
   \<and> 2 \<le> length [twin_one, twin_two]
   \<and> \<not> distinct (map id_p [twin_one, twin_two])
   \<and> \<not> (\<exists>t<1000. check_from [twin_one, twin_two]
          (fst (shuffle rng_zero (t * (length [twin_one, twin_two] - 1)) [twin_one, twin_two]))
          (length [twin_one, twin_two]) 0)
   \<and> assignSecretSantas rng_zero [twin_one, twin_two]
       = [\<lparr>giver = twin_one, recipient = twin_two\<rparr>, \<lparr>giver = twin_two, recipient = twin_one\<rparr>]"
proof -
  have d: "distinct (map id_p [alice, bob])" by (simp add: alice_def bob_def)
  have l: "2 \<le> length [alice, bob]" by simp
  have f: "\<forall>t<1000. \<not> check_from [alice, bob]
          (fst (shuffle rng_half (t * (length [alice, bob] - 1)) [alice, bob]))
          (length [alice, bob]) 0"
    by (simp add: shuffle_half_pair check_from_start_collides)
  have m: "map (\<lambda>i. \<lparr>giver = [alice, bob] ! i,
                  recipient = [alice, bob] ! ((i + 1) mod length [alice, bob])\<rparr>)
          [0..<length [alice, bob]]
        = [\<lparr>giver = alice, recipient = bob\<rparr>, \<lparr>giver = bob, recipient = alice\<rparr>]"
    by (simp add: upt_rec numeral_2_eq_2)
  have nf: "\<not> (\<exists>t<1000. check_from [alice, bob]
          (fst (shuffle rng_half (t * (length [alice, bob] - 1)) [alice, bob]))
          (length [alice, bob]) 0)"
    using f by blast
  have first: "assignSecretSantas rng_half [alice, bob]
       = [\<lparr>giver = alice, recipient = bob\<rparr>, \<lparr>giver = bob, recipient = alice\<rparr>]
     \<and> rotation [alice, bob]
       = [\<lparr>giver = alice, recipient = bob\<rparr>, \<lparr>giver = bob, recipient = alice\<rparr>]
     \<and> list_all (\<lambda>a. id_p (giver a) \<noteq> id_p (recipient a)) (rotation [alice, bob])
     \<and> mset (map (\<lambda>a. id_p (recipient a)) (rotation [alice, bob]))
         = mset (map id_p [alice, bob])
     \<and> count_list (map (\<lambda>a. id_p (recipient a)) (rotation [alice, bob])) (id_p alice) = 1"
    using fallback_rotation[OF l, of rng_half] f d m by (simp add: list_all_iff)
  have l2: "2 \<le> length [twin_one, twin_two]" by simp
  have ids: "id_p twin_one = id_p twin_two" by (simp add: twin_one_def twin_two_def)
  have nd: "\<not> distinct (map id_p [twin_one, twin_two])" using ids by simp
  have f2: "\<forall>t<1000. \<not> check_from [twin_one, twin_two]
          (fst (shuffle rng_zero (t * (length [twin_one, twin_two] - 1)) [twin_one, twin_two]))
          (length [twin_one, twin_two]) 0"
    by (simp add: shuffle_zero_pair check_from_start_collides ids)
  have m2: "map (\<lambda>i. \<lparr>giver = [twin_one, twin_two] ! i,
                  recipient = [twin_one, twin_two] ! ((i + 1) mod length [twin_one, twin_two])\<rparr>)
          [0..<length [twin_one, twin_two]]
        = [\<lparr>giver = twin_one, recipient = twin_two\<rparr>, \<lparr>giver = twin_two, recipient = twin_one\<rparr>]"
    by (simp add: upt_rec numeral_2_eq_2)
  have nf2: "\<not> (\<exists>t<1000. check_from [twin_one, twin_two]
          (fst (shuffle rng_zero (t * (length [twin_one, twin_two] - 1)) [twin_one, twin_two]))
          (length [twin_one, twin_two]) 0)"
    using f2 by blast
  have second: "assignSecretSantas rng_zero [twin_one, twin_two]
       = [\<lparr>giver = twin_one, recipient = twin_two\<rparr>, \<lparr>giver = twin_two, recipient = twin_one\<rparr>]"
    using fallback_rotation[OF l2, of rng_zero] f2 m2 by simp
  show ?thesis using l nf first d l2 nd nf2 second by blast
qed

text \<open>
  Claim C4. \<open>assignSecretSantas\<close> returns no assignment for fewer than two participants;
  for \<open>n \<ge> 2\<close> participants it returns \<open>n\<close> assignments, and the giver of the one at
  index \<open>i\<close> is the participant at index \<open>i\<close>.
\<close>

theorem assign_shape:
  assumes "valid_rng rnd"
  shows "(length ps < 2 \<longrightarrow> assignSecretSantas rnd ps = [])
         \<and> (2 \<le> length ps \<longrightarrow>
              length (assignSecretSantas rnd ps) = length ps
              \<and> (\<forall>i<length ps. giver (assignSecretSantas rnd ps ! i) = ps ! i))"
proof (intro conjI impI)
  assume "length ps < 2"
  then show "assignSecretSantas rnd ps = []" by (rule assign_small)
next
  assume l: "2 \<le> length ps"
  then obtain rs where res: "assignSecretSantas rnd ps = pair_up ps rs"
    using assign_cases[OF assms l] by blast
  show "length (assignSecretSantas rnd ps) = length ps" by (simp add: res)
  show "\<forall>i<length ps. giver (assignSecretSantas rnd ps ! i) = ps ! i"
    by (simp add: res nth_pair_up)
qed

theorem assign_shape_witness:
  "valid_rng rng_zero
   \<and> length [alice] < 2 \<and> assignSecretSantas rng_zero [alice] = []
   \<and> 2 \<le> length [alice, bob, carol]
   \<and> length (assignSecretSantas rng_zero [alice, bob, carol]) = 3
   \<and> giver (assignSecretSantas rng_zero [alice, bob, carol] ! 2) = carol"
proof -
  have v: "valid_rng rng_zero" by (rule valid_rng_zero)
  show ?thesis
    using v assign_shape[OF v, of "[alice]"] assign_shape[OF v, of "[alice, bob, carol]"]
    by simp
qed

text \<open>
  Claim C9 says that a participant list with duplicate ids is answered with an
  invalid-input error and never with assignments that break the derangement property.
  The function has no check of its input and no error result. For two participants that
  share an id every attempt collides at index 0, and the rotation is returned: two
  assignments, each with the same id on both sides.
\<close>

theorem duplicate_ids_counterexample:
  "\<not> distinct (map id_p [twin_one, twin_two])
   \<and> assignSecretSantas rng_zero [twin_one, twin_two]
       = [\<lparr>giver = twin_one, recipient = twin_two\<rparr>, \<lparr>giver = twin_two, recipient = twin_one\<rparr>]
   \<and> id_p (giver \<lparr>giver = twin_one, recipient = twin_two\<rparr>)
       = id_p (recipient \<lparr>giver = twin_one, recipient = twin_two\<rparr>)"
proof -
  have ids: "id_p twin_one = id_p twin_two" by (simp add: twin_one_def twin_two_def)
  have "search rng_zero 0 0 [twin_one, twin_two] = None"
    by (simp add: search_None_iff shuffle_zero_pair check_from_start_collides ids)
  then have "assignSecretSantas rng_zero [twin_one, twin_two] = rotation [twin_one, twin_two]"
    by (simp add: assignSecretSantas_def)
  also have "\<dots> = [\<lparr>giver = twin_one, recipient = twin_two\<rparr>,
                     \<lparr>giver = twin_two, recipient = twin_one\<rparr>]"
    by (simp add: rotation_def Let_def upt_rec numeral_2_eq_2)
  finally show ?thesis using ids by simp
qed

text \<open>
  Claim C9, as the code has it: for every list of at least two participants, with or
  without duplicate ids, \<open>assignSecretSantas\<close> returns as many assignments as there are
  participants, the givers being the participants in their order and the recipients a
  rearrangement of the participants.
\<close>

theorem assign_unvalidated:
  assumes "valid_rng rnd" and "2 \<le> length ps"
  shows "length (assignSecretSantas rnd ps) = length ps
         \<and> map giver (assignSecretSantas rnd ps) = ps
         \<and> mset (map recipient (assignSecretSantas rnd ps)) = mset ps"
proof -
  obtain rs where res: "assignSecretSantas rnd ps = pair_up ps rs"
    and len: "length rs = length ps" and ms: "mset rs = mset ps"
    using assign_cases[OF assms] by blast
  show ?thesis unfolding res using len ms
    by (simp add: map_giver_pair_up map_recipient_pair_up)
qed

theorem assign_unvalidated_witness:
  "valid_rng rng_zero \<and> 2 \<le> length [twin_one, twin_two]
   \<and> \<not> distinct (map id_p [twin_one, twin_two])
   \<and> length (assignSecretSantas rng_zero [twin_one, twin_two]) = 2
   \<and> map giver (assignSecretSantas rng_zero [twin_one, twin_two]) = [twin_one, twin_two]
   \<and> mset (map recipient (assignSecretSantas rng_zero [twin_one, twin_two]))
       = mset [twin_one, twin_two]"
proof -
  have v: "valid_rng rng_zero" by (rule valid_rng_zero)
  have l: "2 \<le> length [twin_one, twin_two]" by simp
  have "\<not> distinct (map id_p [twin_one, twin_two])"
    by (simp add: twin_one_def twin_two_def)
  with v l assign_unvalidated[OF v l] show ?thesis by simp
qed

section \<open>The verification\<close>

lemma verify_derangement: "derangement (verify res parts) = derangement_truth res"
  by (simp add: verify_def derangement_truth_def Let_def list_all_iff)

lemma verify_bijection:
  "bijection (verify res parts)
     \<longleftrightarrow> card (set (map (\<lambda>a. id_p (recipient a)) res)) = length parts"
  by (simp add: verify_def Let_def)

lemma count_list_one_distinct:
  "\<forall>x \<in> set xs. count_list xs x = 1 \<Longrightarrow> distinct xs"
proof (induction xs)
  case Nil
  then show ?case by simp
next
  case (Cons a xs)
  from Cons.prems have "count_list (a # xs) a = 1" by simp
  then have a: "a \<notin> set xs" by (simp add: count_list_0_iff)
  have "\<forall>x \<in> set xs. count_list xs x = 1"
  proof
    fix x assume x: "x \<in> set xs"
    with a have "x \<noteq> a" by blast
    moreover from Cons.prems x have "count_list (a # xs) x = 1" by simp
    ultimately show "count_list xs x = 1" by simp
  qed
  with Cons.IH a show ?case by simp
qed

lemma card_ids_iff_once:
  assumes "length rids = length pids" and "set rids \<subseteq> set pids"
  shows "card (set rids) = length pids \<longleftrightarrow> (\<forall>x \<in> set pids. count_list rids x = 1)"
proof
  assume c: "card (set rids) = length pids"
  have "card (set pids) \<le> length pids" by (rule card_length)
  moreover have "card (set rids) \<le> card (set pids)"
    using assms(2) by (simp add: card_mono)
  ultimately have "card (set rids) = card (set pids)" using c by simp
  with assms(2) have eq: "set rids = set pids" by (simp add: card_subset_eq)
  have "card (set rids) = length rids" using c assms(1) by simp
  then have "distinct rids" by (rule card_distinct)
  then show "\<forall>x \<in> set pids. count_list rids x = 1"
    using eq by (simp add: distinct_count_list_one)
next
  assume o: "\<forall>x \<in> set pids. count_list rids x = 1"
  have "set pids \<subseteq> set rids"
  proof
    fix x assume "x \<in> set pids"
    with o have "count_list rids x \<noteq> 0" by simp
    then show "x \<in> set rids" by (simp add: count_list_0_iff)
  qed
  with assms(2) have eq: "set rids = set pids" by blast
  with o have "\<forall>x \<in> set rids. count_list rids x = 1" by simp
  then have "distinct rids" by (rule count_list_one_distinct)
  then have "card (set rids) = length rids" by (rule distinct_card)
  then show "card (set rids) = length pids" using assms(1) by simp
qed

text \<open>
  Claim C5 says that the two computed booleans agree with the ground truths on every
  assignment set, also on one whose recipient ids are not ids of participants. The
  \<open>bijection\<close> flag counts distinct recipient ids only: with Alice and Bob as
  participants and Carol and Alice as recipients it is true, though Bob receives nothing.
\<close>

theorem verify_bijection_counterexample:
  "bijection (verify [\<lparr>giver = alice, recipient = carol\<rparr>, \<lparr>giver = bob, recipient = alice\<rparr>]
                [alice, bob])
   \<and> \<not> bijection_truth [\<lparr>giver = alice, recipient = carol\<rparr>, \<lparr>giver = bob, recipient = alice\<rparr>]
          [alice, bob]"
  by (simp add: verify_def bijection_truth_def Let_def alice_def bob_def carol_def)

text \<open>
  Claim C5, as the code has it: on every assignment set the \<open>derangement\<close> flag equals its
  ground truth, and the \<open>bijection\<close> flag is true exactly when the number of distinct
  recipient ids equals the number of participants; the \<open>bijection\<close> flag equals its ground
  truth whenever there are as many assignments as participants and every recipient id is
  the id of a participant. Self-assigned and duplicate-recipient sets are among these.
\<close>

theorem verify_agrees:
  "derangement (verify res parts) = derangement_truth res
   \<and> bijection (verify res parts)
       = (card (set (map (\<lambda>a. id_p (recipient a)) res)) = length parts)
   \<and> (length res = length parts
        \<and> (\<forall>a \<in> set res. id_p (recipient a) \<in> id_p ` set parts)
      \<longrightarrow> bijection (verify res parts) = bijection_truth res parts)"
proof (intro conjI impI)
  show "derangement (verify res parts) = derangement_truth res"
    by (rule verify_derangement)
next
  show "bijection (verify res parts)
       = (card (set (map (\<lambda>a. id_p (recipient a)) res)) = length parts)"
    by (rule verify_bijection)
next
  assume h: "length res = length parts
        \<and> (\<forall>a \<in> set res. id_p (recipient a) \<in> id_p ` set parts)"
  let ?rids = "map (\<lambda>a. id_p (recipient a)) res"
  let ?pids = "map id_p parts"
  have "card (set ?rids) = length ?pids \<longleftrightarrow> (\<forall>x \<in> set ?pids. count_list ?rids x = 1)"
    using h by (intro card_ids_iff_once) auto
  then show "bijection (verify res parts) = bijection_truth res parts"
    by (simp add: verify_bijection bijection_truth_def)
qed

theorem verify_agrees_witness:
  "length [\<lparr>giver = alice, recipient = alice\<rparr>, \<lparr>giver = bob, recipient = alice\<rparr>]
       = length [alice, bob]
   \<and> list_all (\<lambda>a. id_p (recipient a) \<in> id_p ` set [alice, bob])
         [\<lparr>giver = alice, recipient = alice\<rparr>, \<lparr>giver = bob, recipient = alice\<rparr>]
   \<and> \<not> derangement (verify [\<lparr>giver = alice, recipient = alice\<rparr>, \<lparr>giver = bob, recipient = alice\<rparr>]
                       [alice, bob])
   \<and> \<not> derangement_truth [\<lparr>giver = alice, recipient = alice\<rparr>, \<lparr>giver = bob, recipient = alice\<rparr>]
   \<and> \<not> bijection (verify [\<lparr>giver = alice, recipient = alice\<rparr>, \<lparr>giver = bob, recipient = alice\<rparr>]
                     [alice, bob])
   \<and> \<not> bijection_truth [\<lparr>giver = alice, recipient = alice\<rparr>, \<lparr>giver = bob, recipient = alice\<rparr>]
          [alice, bob]
   \<and> derangement (verify [\<lparr>giver = alice, recipient = bob\<rparr>, \<lparr>giver = bob, recipient = alice\<rparr>]
                     [alice, bob])
   \<and> bijection (verify [\<lparr>giver = alice, recipient = bob\<rparr>, \<lparr>giver = bob, recipient = alice\<rparr>]
                     [alice, bob])
   \<and> bijection_truth [\<lparr>giver = alice, recipient = bob\<rparr>, \<lparr>giver = bob, recipient = alice\<rparr>]
        [alice, bob]
   \<and> \<not> distinct (map id_p [twin_one, twin_two])
   \<and> length [\<lparr>giver = twin_one, recipient = twin_two\<rparr>, \<lparr>giver = twin_two, recipient = twin_one\<rparr>]
       = length [twin_one, twin_two]
   \<and> list_all (\<lambda>a. id_p (recipient a) \<in> id_p ` set [twin_one, twin_two])
         [\<lparr>giver = twin_one, recipient = twin_two\<rparr>, \<lparr>giver = twin_two, recipient = twin_one\<rparr>]
   \<and> \<not> bijection (verify [\<lparr>giver = twin_one, recipient = twin_two\<rparr>,
                            \<lparr>giver = twin_two, recipient = twin_one\<rparr>] [twin_one, twin_two])
   \<and> \<not> bijection_truth [\<lparr>giver = twin_one, recipient = twin_two\<rparr>,
                          \<lparr>giver = twin_two, recipient = twin_one\<rparr>] [twin_one, twin_two]"
proof -
  let ?self = "[\<lparr>giver = alice, recipient = alice\<rparr>, \<lparr>giver = bob, recipient = alice\<rparr>]"
  let ?good = "[\<lparr>giver = alice, recipient = bob\<rparr>, \<lparr>giver = bob, recipient = alice\<rparr>]"
  let ?twins = "[\<lparr>giver = twin_one, recipient = twin_two\<rparr>,
                 \<lparr>giver = twin_two, recipient = twin_one\<rparr>]"
  have h1: "length ?self = length [alice, bob]
            \<and> (\<forall>a \<in> set ?self. id_p (recipient a) \<in> id_p ` set [alice, bob])"
    by simp
  have h2: "length ?good = length [alice, bob]
            \<and> (\<forall>a \<in> set ?good. id_p (recipient a) \<in> id_p ` set [alice, bob])"
    by simp
  have h3: "length ?twins = length [twin_one, twin_two]
            \<and> (\<forall>a \<in> set ?twins. id_p (recipient a) \<in> id_p ` set [twin_one, twin_two])"
    by simp
  have f: "\<not> derangement (verify ?self [alice, bob])"
    by (simp add: verify_def Let_def)
  have g: "\<not> bijection (verify ?self [alice, bob])"
    by (simp add: verify_def Let_def)
  have k: "derangement (verify ?good [alice, bob])" "bijection (verify ?good [alice, bob])"
    by (simp_all add: verify_def Let_def alice_def bob_def)
  have t: "\<not> distinct (map id_p [twin_one, twin_two])"
    by (simp add: twin_one_def twin_two_def)
  have u: "\<not> bijection (verify ?twins [twin_one, twin_two])"
    by (simp add: verify_def Let_def twin_one_def twin_two_def)
  have a1: "\<not> derangement_truth ?self" "\<not> bijection_truth ?self [alice, bob]"
    using verify_agrees[of ?self "[alice, bob]"] h1 f g by blast+
  have a2: "bijection_truth ?good [alice, bob]"
    using verify_agrees[of ?good "[alice, bob]"] h2 k by blast
  have a3: "\<not> bijection_truth ?twins [twin_one, twin_two]"
    using verify_agrees[of ?twins "[twin_one, twin_two]"] h3 u by blast
  have l1: "length ?self = length [alice, bob]"
    "list_all (\<lambda>a. id_p (recipient a) \<in> id_p ` set [alice, bob]) ?self"
    by simp_all
  have l3: "length ?twins = length [twin_one, twin_two]"
    "list_all (\<lambda>a. id_p (recipient a) \<in> id_p ` set [twin_one, twin_two]) ?twins"
    by simp_all
  show ?thesis
    using l1 f a1 g k a2 t l3 u a3 by blast
qed

section \<open>Token generation\<close>

lemma toBase64_map: "toBase64 env buf = btoa env (map (\<lambda>b. char_of (unat b)) buf)"
proof -
  have "foldl (\<lambda>binary b. binary @ [char_of (unat b)]) acc buf
          = acc @ map (\<lambda>b. char_of (unat b)) buf" for acc :: string
    by (induction buf arbitrary: acc) simp_all
  then show ?thesis by (simp add: toBase64_def)
qed

lemma length_nonce_at: "length (nonce_at env i) = 12"
  by (simp add: nonce_at_def getRandomValues_def)

lemma token_loop_enumerate:
  "token_loop env key (12 * k) rest tokens =
     (if \<forall>(i, a) \<in> set (enumerate k rest).
           encrypt env key (nonce_at env i) (encode env (id_p (recipient a))) \<noteq> None
      then Some (tokens @ map (\<lambda>(i, a). toBase64 env (nonce_at env i @
                   the (encrypt env key (nonce_at env i) (encode env (id_p (recipient a))))))
                 (enumerate k rest))
      else None)"
proof (induction rest arbitrary: k tokens)
  case Nil
  then show ?case by simp
next
  case (Cons a rest)
  have step: "12 * k + 12 = 12 * Suc k" by simp
  show ?case
  proof (cases "encrypt env key (nonce_at env k) (encode env (id_p (recipient a)))")
    case None
    then show ?thesis by (simp add: nonce_at_def Let_def)
  next
    case (Some ct)
    then have eq: "token_loop env key (12 * k) (a # rest) tokens
        = token_loop env key (12 * Suc k) rest (tokens @ [toBase64 env (nonce_at env k @ ct)])"
      by (simp add: nonce_at_def Let_def add.commute)
    show ?thesis unfolding eq Cons.IH[of "Suc k"] using Some by simp
  qed
qed

lemma token_loop_result:
  "token_loop env key 0 res [] =
     (if \<forall>i<length res. ciphertext_at env key res i \<noteq> None
      then Some (map (\<lambda>i. toBase64 env (nonce_at env i @ the (ciphertext_at env key res i)))
                  [0..<length res])
      else None)"
proof -
  have all: "(\<forall>(i, a) \<in> set (enumerate 0 res).
           encrypt env key (nonce_at env i) (encode env (id_p (recipient a))) \<noteq> None)
        \<longleftrightarrow> (\<forall>i<length res. ciphertext_at env key res i \<noteq> None)"
  proof
    assume l: "\<forall>(i, a) \<in> set (enumerate 0 res).
           encrypt env key (nonce_at env i) (encode env (id_p (recipient a))) \<noteq> None"
    show "\<forall>i<length res. ciphertext_at env key res i \<noteq> None"
    proof (intro allI impI)
      fix i assume "i < length res"
      then have "(i, res ! i) \<in> set (enumerate 0 res)"
        by (simp add: in_set_enumerate_eq)
      with l show "ciphertext_at env key res i \<noteq> None"
        unfolding ciphertext_at_def by blast
    qed
  next
    assume "\<forall>i<length res. ciphertext_at env key res i \<noteq> None"
    then show "\<forall>(i, a) \<in> set (enumerate 0 res).
           encrypt env key (nonce_at env i) (encode env (id_p (recipient a))) \<noteq> None"
      by (auto simp: in_set_enumerate_eq ciphertext_at_def)
  qed
  have m: "map (\<lambda>(i, a). toBase64 env (nonce_at env i @
                   the (encrypt env key (nonce_at env i) (encode env (id_p (recipient a))))))
                 (enumerate 0 res)
          = map (\<lambda>i. toBase64 env (nonce_at env i @ the (ciphertext_at env key res i)))
                  [0..<length res]"
    by (rule nth_equalityI) (simp_all add: nth_enumerate_eq ciphertext_at_def)
  show ?thesis
    using token_loop_enumerate[of env key 0 res "[]"] unfolding all m by simp
qed

text \<open>
  Claim C6. When Web Crypto is there, key generation succeeds and the encryption of every
  item succeeds, the state holds as many tokens as there are assignments, and the token at
  index \<open>i\<close> is the base64 encoding of the twelve bytes of the \<open>i\<close>-th nonce followed by the
  ciphertext of the encoded recipient id of the assignment at index \<open>i\<close>.
\<close>

theorem tokens_aligned:
  assumes "window_defined env" and "has_crypto env" and "has_subtle env"
    and "generateKey env = Some key"
    and "\<forall>i<length res. ciphertext_at env key res i \<noteq> None"
  shows "\<exists>tokens.
           encryptedTokens (createEncryptedTokensAndVerify env res parts st) = Some tokens
           \<and> length tokens = length res
           \<and> (\<forall>i<length res.
                 length (nonce_at env i) = 12
                 \<and> tokens ! i = btoa env (map (\<lambda>b. char_of (unat b))
                      (nonce_at env i @ the (ciphertext_at env key res i))))"
proof -
  let ?tokens = "map (\<lambda>i. toBase64 env (nonce_at env i @ the (ciphertext_at env key res i)))
                  [0..<length res]"
  have "token_loop env key 0 res [] = Some ?tokens"
    using assms(5) by (simp add: token_loop_result)
  then have "encryptedTokens (createEncryptedTokensAndVerify env res parts st) = Some ?tokens"
    using assms(1-4) by (simp add: createEncryptedTokensAndVerify_def Let_def)
  moreover have "length ?tokens = length res" by simp
  moreover have "\<forall>i<length res.
                 length (nonce_at env i) = 12
                 \<and> ?tokens ! i = btoa env (map (\<lambda>b. char_of (unat b))
                      (nonce_at env i @ the (ciphertext_at env key res i)))"
    by (simp add: length_nonce_at toBase64_map)
  ultimately show ?thesis by blast
qed

theorem tokens_aligned_witness:
  "window_defined demo_env \<and> has_crypto demo_env \<and> has_subtle demo_env
   \<and> generateKey demo_env = Some 7
   \<and> ciphertext_at demo_env 7
         [\<lparr>giver = alice, recipient = bob\<rparr>, \<lparr>giver = bob, recipient = alice\<rparr>] 0 \<noteq> None
   \<and> ciphertext_at demo_env 7
         [\<lparr>giver = alice, recipient = bob\<rparr>, \<lparr>giver = bob, recipient = alice\<rparr>] 1 \<noteq> None
   \<and> (\<exists>tokens.
         encryptedTokens (createEncryptedTokensAndVerify demo_env
           [\<lparr>giver = alice, recipient = bob\<rparr>, \<lparr>giver = bob, recipient = alice\<rparr>]
           [alice, bob] start_state) = Some tokens
         \<and> length tokens = 2)"
proof -
  have a: "window_defined demo_env" "has_crypto demo_env" "has_subtle demo_env"
    by (simp_all add: demo_env_def)
  have k: "generateKey demo_env = Some 7" by (simp add: demo_env_def)
  have e: "\<forall>i<length [\<lparr>giver = alice, recipient = bob\<rparr>, \<lparr>giver = bob, recipient = alice\<rparr>].
         ciphertext_at demo_env 7
           [\<lparr>giver = alice, recipient = bob\<rparr>, \<lparr>giver = bob, recipient = alice\<rparr>] i \<noteq> None"
    by (simp add: ciphertext_at_def demo_env_def)
  from tokens_aligned[OF a k e, of "[alice, bob]" start_state]
  obtain tokens where
    "encryptedTokens (createEncryptedTokensAndVerify demo_env
           [\<lparr>giver = alice, recipient = bob\<rparr>, \<lparr>giver = bob, recipient = alice\<rparr>]
           [alice, bob] start_state) = Some tokens" "length tokens = 2"
    by auto
  moreover have "ciphertext_at demo_env 7
         [\<lparr>giver = alice, recipient = bob\<rparr>, \<lparr>giver = bob, recipient = alice\<rparr>] 0 \<noteq> None"
    "ciphertext_at demo_env 7
         [\<lparr>giver = alice, recipient = bob\<rparr>, \<lparr>giver = bob, recipient = alice\<rparr>] 1 \<noteq> None"
    using e by simp_all
  ultimately show ?thesis using a k by blast
qed

lemma no_crypto_state:
  assumes "\<not> window_defined env \<or> \<not> has_crypto env \<or> \<not> has_subtle env"
  shows "createEncryptedTokensAndVerify env res parts st
           = st\<lparr>verification := Some (verify res parts), encryptedTokens := None\<rparr>"
  using assms by (auto simp: createEncryptedTokensAndVerify_def Let_def)

text \<open>
  Claim C7. When \<open>window\<close>, \<open>window.crypto\<close> or \<open>window.crypto.subtle\<close> is missing,
  \<open>createEncryptedTokensAndVerify\<close> stores the verification result, sets the tokens to
  \<open>null\<close> and leaves \<open>error\<close> as it was; after \<open>handleAssign\<close> on two or more
  participants \<open>error\<close> is \<open>null\<close>, the tokens are \<open>null\<close> and the verification is there.
\<close>

theorem no_web_crypto:
  assumes "\<not> window_defined env \<or> \<not> has_crypto env \<or> \<not> has_subtle env"
  shows "createEncryptedTokensAndVerify env res parts st
           = st\<lparr>verification := Some (verify res parts), encryptedTokens := None\<rparr>
         \<and> error (createEncryptedTokensAndVerify env res parts st) = error st
         \<and> (2 \<le> length (participants st) \<longrightarrow>
              error (handleAssign rnd env st) = None
              \<and> encryptedTokens (handleAssign rnd env st) = None
              \<and> verification (handleAssign rnd env st)
                  = Some (verify (assignSecretSantas rnd (participants st)) (participants st)))"
  by (simp add: no_crypto_state[OF assms] handleAssign_def Let_def)

theorem no_web_crypto_witness:
  "\<not> has_subtle no_subtle_env
   \<and> 2 \<le> length (participants start_state)
   \<and> createEncryptedTokensAndVerify no_subtle_env
        [\<lparr>giver = alice, recipient = bob\<rparr>, \<lparr>giver = bob, recipient = alice\<rparr>] [alice, bob]
        start_state
      = start_state\<lparr>verification := Some \<lparr>derangement = True, bijection = True\<rparr>\<rparr>
   \<and> error (handleAssign rng_zero no_subtle_env start_state) = None
   \<and> encryptedTokens (handleAssign rng_zero no_subtle_env start_state) = None"
proof -
  have u: "\<not> window_defined no_subtle_env \<or> \<not> has_crypto no_subtle_env
           \<or> \<not> has_subtle no_subtle_env"
    by (simp add: no_subtle_env_def)
  have l: "2 \<le> length (participants start_state)" by (simp add: start_state_def)
  have v: "verify [\<lparr>giver = alice, recipient = bob\<rparr>, \<lparr>giver = bob, recipient = alice\<rparr>]
             [alice, bob] = \<lparr>derangement = True, bijection = True\<rparr>"
    by (simp add: verify_def Let_def alice_def bob_def)
  have h: "\<not> has_subtle no_subtle_env" by (simp add: no_subtle_env_def)
  show ?thesis
    using h l v
      no_web_crypto[OF u, of "[\<lparr>giver = alice, recipient = bob\<rparr>, \<lparr>giver = bob, recipient = alice\<rparr>]"
        "[alice, bob]" start_state rng_zero]
    by (simp add: start_state_def)
qed

lemma encrypt_failure_state:
  assumes "window_defined env" and "has_crypto env" and "has_subtle env"
    and "generateKey env = Some key"
    and "i < length res" and "ciphertext_at env key res i = None"
  shows "createEncryptedTokensAndVerify env res parts st
           = st\<lparr>verification := Some (verify res parts), error := Some token_failure\<rparr>"
proof -
  have "token_loop env key 0 res [] = None"
    using assms(5,6) by (auto simp: token_loop_result)
  then show ?thesis
    using assms(1-4) by (simp add: createEncryptedTokensAndVerify_def Let_def)
qed

text \<open>
  Claim C8. When the encryption of the item at some index fails,
  \<open>createEncryptedTokensAndVerify\<close> sets \<open>error\<close> to the token failure message and does not
  touch the tokens of the state, whatever was encrypted before the failure; after
  \<open>handleAssign\<close> the tokens are \<open>null\<close>, so no part of the token sequence is published.
\<close>

theorem encryption_failure_aborts:
  assumes "window_defined env" and "has_crypto env" and "has_subtle env"
    and "generateKey env = Some key"
    and "i < length res" and "ciphertext_at env key res i = None"
  shows "createEncryptedTokensAndVerify env res parts st
           = st\<lparr>verification := Some (verify res parts), error := Some token_failure\<rparr>
         \<and> encryptedTokens (createEncryptedTokensAndVerify env res parts st)
             = encryptedTokens st
         \<and> (2 \<le> length (participants st) \<and> res = assignSecretSantas rnd (participants st)
              \<longrightarrow> error (handleAssign rnd env st) = Some token_failure
                \<and> encryptedTokens (handleAssign rnd env st) = None)"
proof (intro conjI impI)
  show "createEncryptedTokensAndVerify env res parts st
           = st\<lparr>verification := Some (verify res parts), error := Some token_failure\<rparr>"
    using assms by (rule encrypt_failure_state)
  then show "encryptedTokens (createEncryptedTokensAndVerify env res parts st)
             = encryptedTokens st" by simp
next
  assume h: "2 \<le> length (participants st) \<and> res = assignSecretSantas rnd (participants st)"
  let ?st1 = "st\<lparr>error := None, assignments := Some res, encryptedTokens := None,
                  verification := None\<rparr>"
  have "handleAssign rnd env st
          = createEncryptedTokensAndVerify env res (participants st) ?st1"
    using h by (simp add: handleAssign_def Let_def)
  also have "\<dots> = ?st1\<lparr>verification := Some (verify res (participants st)),
                         error := Some token_failure\<rparr>"
    using assms by (rule encrypt_failure_state)
  finally have e: "handleAssign rnd env st
          = ?st1\<lparr>verification := Some (verify res (participants st)),
                  error := Some token_failure\<rparr>" .
  show "error (handleAssign rnd env st) = Some token_failure" by (simp add: e)
  show "encryptedTokens (handleAssign rnd env st) = None" by (simp add: e)
qed

lemma assign_zero_pair:
  "assignSecretSantas rng_zero [alice, bob]
     = [\<lparr>giver = alice, recipient = bob\<rparr>, \<lparr>giver = bob, recipient = alice\<rparr>]"
proof -
  have c: "check_from [alice, bob] [bob, alice] (length [alice, bob]) 0"
    by (simp add: check_from_iff alice_def bob_def less_Suc_eq)
  have "search rng_zero 0 0 [alice, bob] = Some (pair_up [alice, bob] [bob, alice])"
    using c by (subst search.simps) (simp add: shuffle_zero_pair del: length_Cons list.size)
  then show ?thesis
    by (simp add: assignSecretSantas_def pair_up_def upt_rec numeral_2_eq_2)
qed

theorem encryption_failure_aborts_witness:
  "window_defined second_fails_env \<and> has_crypto second_fails_env
   \<and> has_subtle second_fails_env \<and> generateKey second_fails_env = Some 7
   \<and> 1 < length [\<lparr>giver = alice, recipient = bob\<rparr>, \<lparr>giver = bob, recipient = alice\<rparr>]
   \<and> ciphertext_at second_fails_env 7
        [\<lparr>giver = alice, recipient = bob\<rparr>, \<lparr>giver = bob, recipient = alice\<rparr>] 0 \<noteq> None
   \<and> ciphertext_at second_fails_env 7
        [\<lparr>giver = alice, recipient = bob\<rparr>, \<lparr>giver = bob, recipient = alice\<rparr>] 1 = None
   \<and> 2 \<le> length (participants start_state)
   \<and> [\<lparr>giver = alice, recipient = bob\<rparr>, \<lparr>giver = bob, recipient = alice\<rparr>]
       = assignSecretSantas rng_zero (participants start_state)
   \<and> error (handleAssign rng_zero second_fails_env start_state) = Some token_failure
   \<and> encryptedTokens (handleAssign rng_zero second_fails_env start_state) = None"
proof -
  let ?res = "[\<lparr>giver = alice, recipient = bob\<rparr>, \<lparr>giver = bob, recipient = alice\<rparr>]"
  have a: "window_defined second_fails_env" "has_crypto second_fails_env"
    "has_subtle second_fails_env"
    by (simp_all add: second_fails_env_def demo_env_def)
  have k: "generateKey second_fails_env = Some 7"
    by (simp add: second_fails_env_def demo_env_def)
  have i: "1 < length ?res" by simp
  have z: "ciphertext_at second_fails_env 7 ?res 0 \<noteq> None"
    by (simp add: ciphertext_at_def nonce_at_def getRandomValues_def second_fails_env_def
        demo_env_def upt_conv_Cons)
  have f: "ciphertext_at second_fails_env 7 ?res 1 = None"
    by (simp add: ciphertext_at_def nonce_at_def getRandomValues_def second_fails_env_def
        demo_env_def upt_conv_Cons)
  have l: "2 \<le> length (participants start_state)" by (simp add: start_state_def)
  have r: "?res = assignSecretSantas rng_zero (participants start_state)"
    by (simp add: start_state_def assign_zero_pair)
  show ?thesis
    using a k i z f l r
      encryption_failure_aborts[OF a k i f, of "[alice, bob]" start_state rng_zero]
    by simp
qed

section \<open>The send-emails route\<close>

lemma guard_iff:
  "(\<not> truthy v \<or> \<not> isArray v \<or> length (elements v) = 0)
     \<longleftrightarrow> \<not> (\<exists>x xs. v = Some (JArr (x # xs)))"
proof (cases v)
  case None
  then show ?thesis by simp
next
  case (Some j)
  show ?thesis
  proof (cases j)
    case (JArr ys)
    with Some show ?thesis by (cases ys) simp_all
  qed (simp_all add: Some)
qed

lemma get_prop_assignments:
  "b \<noteq> JNull \<Longrightarrow> get_prop (Some b) ''assignments'' = Inr (assignments_field b)"
  by (cases b) simp_all

lemma rejected_body_iff:
  "rejected_body b \<longleftrightarrow> \<not> (\<exists>x xs. assignments_field b = Some (JArr (x # xs)))"
proof (cases "assignments_field b")
  case None
  then show ?thesis by simp
next
  case (Some j)
  show ?thesis
  proof (cases j)
    case (JArr ys)
    with Some show ?thesis by (cases ys) simp_all
  qed (simp_all add: Some)
qed

lemma POST_rejected:
  assumes "rejected_body b" and "b \<noteq> JNull"
  shows "POST env fetch_fn (Some b)
           = (\<lparr>status_code = 400, body = ErrorMessage ''no assignments''\<rparr>, [])"
proof -
  have "\<not> (\<exists>x xs. assignments_field b = Some (JArr (x # xs)))"
    using assms(1) unfolding rejected_body_iff .
  then have "\<not> truthy (assignments_field b) \<or> \<not> isArray (assignments_field b)
             \<or> length (elements (assignments_field b)) = 0"
    unfolding guard_iff .
  then show ?thesis
    using get_prop_assignments[OF assms(2)] by (simp add: POST_def)
qed

lemma POST_null: "POST env fetch_fn (Some JNull)
                    = (\<lparr>status_code = 500, body = CaughtError TypeError\<rparr>, [])"
  by (simp add: POST_def)

lemma POST_unparsed: "POST env fetch_fn None
                    = (\<lparr>status_code = 500, body = CaughtError SyntaxError\<rparr>, [])"
  by (simp add: POST_def)

text \<open>
  Claim C10 says that every request body without an \<open>assignments\<close> member is answered
  with status 400 and the error \<open>no assignments\<close>. The body \<open>null\<close> is JSON and has no such
  member, but reading \<open>body.assignments\<close> from it throws, and the \<open>catch\<close> block answers
  with status 500.
\<close>

theorem null_body_counterexample:
  "rejected_body JNull
   \<and> POST demo_config demo_provider (Some JNull)
       = (\<lparr>status_code = 500, body = CaughtError TypeError\<rparr>, [])
   \<and> POST demo_config demo_provider (Some JNull)
       \<noteq> (\<lparr>status_code = 400, body = ErrorMessage ''no assignments''\<rparr>, [])"
  by (simp add: POST_def)

text \<open>
  Claim C10, as the code has it: a body that is a JSON value other than \<open>null\<close> and has no
  \<open>assignments\<close> member, a member that is not an array, or an empty array, is answered
  with status 400 and the error \<open>no assignments\<close>; for every such body, \<open>null\<close> included,
  and for a body that is not JSON no provider request is made; and a provider request is
  made only when the body has a non-empty array as its \<open>assignments\<close> member.
\<close>

theorem post_rejects:
  "(rejected_body b \<and> b \<noteq> JNull \<longrightarrow>
      POST env fetch_fn (Some b)
        = (\<lparr>status_code = 400, body = ErrorMessage ''no assignments''\<rparr>, []))
   \<and> (rejected_body b \<longrightarrow> snd (POST env fetch_fn (Some b)) = [])
   \<and> (snd (POST env fetch_fn None) = [])
   \<and> (snd (POST env fetch_fn req) \<noteq> [] \<longrightarrow>
        (\<exists>b' x xs. req = Some b' \<and> assignments_field b' = Some (JArr (x # xs))))"
proof (intro conjI impI)
  assume "rejected_body b \<and> b \<noteq> JNull"
  then show "POST env fetch_fn (Some b)
        = (\<lparr>status_code = 400, body = ErrorMessage ''no assignments''\<rparr>, [])"
    by (simp add: POST_rejected)
next
  assume r: "rejected_body b"
  show "snd (POST env fetch_fn (Some b)) = []"
  proof (cases "b = JNull")
    case True
    then show ?thesis by (simp add: POST_null)
  next
    case False
    with r show ?thesis by (simp add: POST_rejected)
  qed
next
  show "snd (POST env fetch_fn None) = []" by (simp add: POST_unparsed)
next
  assume s: "snd (POST env fetch_fn req) \<noteq> []"
  show "\<exists>b' x xs. req = Some b' \<and> assignments_field b' = Some (JArr (x # xs))"
  proof (cases req)
    case None
    with s show ?thesis by (simp add: POST_unparsed)
  next
    case (Some b')
    have "\<not> rejected_body b'"
    proof
      assume r: "rejected_body b'"
      show False
      proof (cases "b' = JNull")
        case True
        with s Some show False by (simp add: POST_null)
      next
        case False
        with r s Some show False by (simp add: POST_rejected)
      qed
    qed
    then show ?thesis using Some by (simp only: rejected_body_iff) simp
  qed
qed

theorem post_rejects_witness:
  "rejected_body (JObj [(''assignments'', JStr ''none'')])
   \<and> JObj [(''assignments'', JStr ''none'')] \<noteq> JNull
   \<and> POST demo_config demo_provider (Some (JObj [(''assignments'', JStr ''none'')]))
       = (\<lparr>status_code = 400, body = ErrorMessage ''no assignments''\<rparr>, [])
   \<and> snd (POST demo_config demo_provider (Some demo_body)) \<noteq> []
   \<and> (\<exists>b' x xs. Some demo_body = Some b' \<and> assignments_field b' = Some (JArr (x # xs)))"
proof -
  have r: "rejected_body (JObj [(''assignments'', JStr ''none'')])" by simp
  have n: "JObj [(''assignments'', JStr ''none'')] \<noteq> JNull" by simp
  have s: "snd (POST demo_config demo_provider (Some demo_body)) \<noteq> []"
    by (simp add: POST_def demo_body_def demo_config_def demo_provider_def or_else_def
        read_assignment_def Let_def)
  show ?thesis
    using r n s
      post_rejects[of "JObj [(''assignments'', JStr ''none'')]" demo_config demo_provider
        "Some demo_body"]
    by simp
qed

end
